theory Spec2Isabelle
  imports Complex_Main
begin

section \<open>JavaScript values used by the console\<close>

text \<open>
  Strings are modelled as \<^typ>\<open>string\<close>. A value that may be \<open>undefined\<close> or
  \<open>null\<close> is an \<^typ>\<open>'a option\<close>. JavaScript conditions test truthiness: for a
  string that may be missing, the missing value and the empty string are both falsy.
\<close>

definition truthy :: "string option \<Rightarrow> bool" where
  "truthy v = (case v of None \<Rightarrow> False | Some s \<Rightarrow> s \<noteq> [])"

section \<open>Colour mode (ColorModeProvider)\<close>

datatype PaletteMode = Light | Dark

text \<open>The strings \<open>"light"\<close> and \<open>"dark"\<close> that the union type consists of.\<close>

fun modeString :: "PaletteMode \<Rightarrow> string" where
  "modeString Light = ''light''"
| "modeString Dark = ''dark''"

text \<open>
  The provider's state: the React state variable \<open>mode\<close> and the browser's
  \<open>localStorage\<close> (keys to values; \<open>getItem\<close> of a missing key is \<open>null\<close>).
\<close>

record ColorModeState =
  mode :: PaletteMode
  localStorage :: "string \<rightharpoonup> string"

text \<open>
  \<open>toggleColorMode\<close>: the updater passed to \<open>setMode\<close> computes the next mode from the
  previous one, stores it under \<open>"chosenMode"\<close> and returns it.
\<close>

definition toggleColorMode :: "ColorModeState \<Rightarrow> ColorModeState" where
  "toggleColorMode s =
     (let prevMode = mode s;
          nextMode = (if prevMode = Light then Dark else Light)
      in s\<lparr>localStorage := (localStorage s)(''chosenMode'' \<mapsto> modeString nextMode),
            mode := nextMode\<rparr>)"

text \<open>\<open>preferredMode\<close>: from the media query \<open>(prefers-color-scheme: dark)\<close>.\<close>

definition preferredMode :: "bool \<Rightarrow> PaletteMode" where
  "preferredMode prefersDark = (if prefersDark then Dark else Light)"

text \<open>
  The effect run on load (and whenever the preferred mode changes): a \<open>switch\<close> on the
  stored \<open>chosenMode\<close>.
\<close>

definition loadColorMode :: "bool \<Rightarrow> ColorModeState \<Rightarrow> ColorModeState" where
  "loadColorMode prefersDark s =
     (let chosenMode = localStorage s ''chosenMode''
      in if chosenMode = Some ''dark'' then s\<lparr>mode := Dark\<rparr>
         else if chosenMode = Some ''light'' then s\<lparr>mode := Light\<rparr>
         else s\<lparr>mode := preferredMode prefersDark\<rparr>)"

section \<open>Recording player options (getRecordingVideoJSOptions)\<close>

text \<open>
  The type \<open>Recording\<close> is declared in \<open>lib/types\<close>, outside the sources at hand. Of a
  recording the function reads \<open>hls_url\<close> and \<open>thumbnail_path\<close>; the record is
  extensible, so a recording may carry any other fields.
\<close>

record Recording =
  hls_url :: string
  thumbnail_path :: string

record Source =
  src :: string
  source_type :: string

record VideoJSOptions =
  autoplay :: bool
  playsinline :: bool
  controls :: bool
  loop :: bool
  poster :: string
  preload :: string
  responsive :: bool
  fluid :: bool
  playbackRates :: "rat list"
  liveui :: bool
  liveTracker_trackingThreshold :: nat
  html5_vhs_experimentalLLHLS :: bool
  sources :: "Source list"

definition getRecordingVideoJSOptions ::
  "'a Recording_scheme \<Rightarrow> string option \<Rightarrow> VideoJSOptions" where
  "getRecordingVideoJSOptions recording auth_token =
     \<lparr> autoplay = False,
       playsinline = True,
       controls = True,
       loop = True,
       poster = thumbnail_path recording,
       preload = ''none'',
       responsive = True,
       fluid = True,
       playbackRates = [1 / 2, 1, 2, 5, 10],
       liveui = True,
       liveTracker_trackingThreshold = 0,
       html5_vhs_experimentalLLHLS = True,
       sources =
         [\<lparr> src = hls_url recording
                  @ (if truthy auth_token then ''?token='' @ the auth_token else ''''),
             source_type = ''application/x-mpegURL'' \<rparr>] \<rparr>"

section \<open>The request interceptor (useAuthAxiosInterceptor)\<close>

text \<open>\<open>String.prototype.startsWith\<close> and \<open>String.prototype.includes\<close> (here \<open>str_includes\<close>).\<close>

fun startsWith :: "string \<Rightarrow> string \<Rightarrow> bool" where
  "startsWith s [] = True"
| "startsWith [] (p # ps) = False"
| "startsWith (c # s) (p # ps) = (c = p \<and> startsWith s ps)"

fun str_includes :: "string \<Rightarrow> string \<Rightarrow> bool" where
  "str_includes [] t = (t = [])"
| "str_includes (c # s) t = (startsWith (c # s) t \<or> str_includes s t)"

text \<open>\<open>config.url?.includes(t)\<close>: a request without a URL includes nothing.\<close>

definition urlIncludes :: "string option \<Rightarrow> string \<Rightarrow> bool" where
  "urlIncludes u t = (case u of None \<Rightarrow> False | Some s \<Rightarrow> str_includes s t)"

text \<open>A thrown \<open>new Error(message)\<close>, and a rejected promise.\<close>

datatype js_error = Error string

text \<open>
  The response of \<open>/auth/enabled\<close> (type \<open>AuthEnabledResponse\<close> of \<open>lib/types\<close>, outside
  the sources at hand), with the fields the interceptor and the provider read. While the
  query has not loaded, \<open>auth\<close> is \<open>undefined\<close> (\<open>None\<close>); a loaded response is an object
  and so always truthy.
\<close>

record AuthEnabledResponse =
  enabled :: bool
  onboarding_complete :: bool

text \<open>
  The request configuration: the interceptor reads \<open>url\<close> and writes \<open>headers\<close>; all
  other fields are the record's extension. The header container \<open>AxiosHeaders\<close> belongs
  to the HTTP library, so its type \<open>'h\<close> and its \<open>set\<close> method are parameters.
\<close>

record 'h RequestConfig =
  url :: "string option"
  headers :: 'h

text \<open>What the interceptor does to the outside: error toasts and calls of \<open>getToken\<close>.\<close>

datatype interceptor_effect = Toast_error string | GetToken_call

text \<open>
  The request interceptor installed by \<open>useAuthAxiosInterceptor\<close>. \<open>getToken\<close> (of
  \<open>lib/tokens\<close>) is a parameter: awaited, it rejects (\<open>Inl\<close>) or yields a token or
  \<open>null\<close>. \<open>cookies\<close> is the object returned by \<open>Cookies.get()\<close>. The result is the list of
  effects in order, and the rejection (\<open>Inl\<close>) or the configuration handed on (\<open>Inr\<close>).
\<close>

definition useAuthAxiosInterceptor ::
  "(('h, 'z) RequestConfig_scheme \<Rightarrow> js_error + string option)
   \<Rightarrow> (string \<Rightarrow> string \<Rightarrow> 'h \<Rightarrow> 'h)
   \<Rightarrow> AuthEnabledResponse option \<Rightarrow> (string \<rightharpoonup> string)
   \<Rightarrow> ('h, 'z) RequestConfig_scheme
   \<Rightarrow> interceptor_effect list \<times> (js_error + ('h, 'z) RequestConfig_scheme)" where
  "useAuthAxiosInterceptor getToken headers_set auth cookies config =
     (if auth = None \<and> urlIncludes (url config) ''/auth/enabled'' then ([], Inr config)
      else if auth = None then ([], Inl (Error ''Request blocked, auth not loaded yet.''))
      else if \<not> enabled (the auth) then ([], Inr config)
      else if urlIncludes (url config) ''/auth/enabled''
              \<or> urlIncludes (url config) ''/auth/login''
              \<or> urlIncludes (url config) ''/onboarding'' then ([], Inr config)
      else if truthy (cookies ''user'') \<and> urlIncludes (url config) ''/auth/token''
        then ([], Inr config)
      else if \<not> truthy (cookies ''user'')
        then ([Toast_error ''Session expired, please log in again''],
              Inl (Error ''Invalid session.''))
      else (case getToken config of
              Inl e \<Rightarrow> ([GetToken_call], Inl e)
            | Inr token \<Rightarrow>
                if truthy token
                then ([GetToken_call],
                      Inr (config\<lparr>headers :=
                             headers_set ''Authorization'' (''Bearer '' @ the token)
                               (headers config)\<rparr>))
                else ([GetToken_call], Inr config)))"

section \<open>Onboarding (useOnboarding)\<close>

record OnboardingVariables =
  name :: string
  username :: string
  password :: string

text \<open>The request body: the three variables and \<open>client_id\<close>.\<close>

record OnboardingBody = OnboardingVariables +
  client_id :: string

text \<open>
  The error type of the mutation (\<open>APIErrorResponse\<close> of \<open>lib/types\<close>, outside the
  sources at hand), as \<open>onError\<close> reads it: \<open>error.response\<close> may be missing,
  \<open>error.response.data.error\<close> may be missing, \<open>error.message\<close> is a string.
\<close>

record APIErrorData =
  data_error :: "string option"

record APIErrorResponse =
  response :: "APIErrorData option"
  message :: string

record 'd AxiosResponse =
  data :: 'd

datatype 'd onboarding_effect =
  HttpPost string OnboardingBody
| StoreTokens 'd
| ToastSuccess string
| ToastError string

text \<open>
  \<open>onboarding\<close>: the mutation function. \<open>post\<close> stands for \<open>viseronAPI.post\<close> (its
  answer for a URL and a body) and \<open>clientId\<close> for the value of \<open>clientId()\<close>.
\<close>

definition onboarding ::
  "(string \<Rightarrow> OnboardingBody \<Rightarrow> APIErrorResponse + 'd AxiosResponse) \<Rightarrow> string
   \<Rightarrow> OnboardingVariables \<Rightarrow> 'd onboarding_effect list \<times> (APIErrorResponse + 'd)" where
  "onboarding post clientId variables =
     (let body = \<lparr> name = name variables, username = username variables,
                    password = password variables, client_id = clientId \<rparr>
      in ([HttpPost ''/onboarding'' body],
          (case post ''/onboarding'' body of
             Inl err \<Rightarrow> Inl err
           | Inr resp \<Rightarrow> Inr (data resp))))"

text \<open>
  \<open>useOnboarding\<close>: running the mutation calls \<open>mutationFn\<close>, then \<open>onSuccess\<close> with
  the data or \<open>onError\<close> with the error. The result is the list of effects in order;
  \<open>storeTokens\<close> and the toasts are calls into other modules and are recorded as effects.
\<close>

definition onSuccess :: "'d \<Rightarrow> 'd onboarding_effect list" where
  "onSuccess d = [StoreTokens d, ToastSuccess ''User created successfully'']"

definition onError :: "APIErrorResponse \<Rightarrow> 'd onboarding_effect list" where
  "onError err =
     [ToastError
        (if response err \<noteq> None \<and> truthy (data_error (the (response err)))
         then ''Error creating user: '' @ the (data_error (the (response err)))
         else ''An error occurred: '' @ message err)]"

definition useOnboarding ::
  "(string \<Rightarrow> OnboardingBody \<Rightarrow> APIErrorResponse + 'd AxiosResponse) \<Rightarrow> string
   \<Rightarrow> OnboardingVariables \<Rightarrow> 'd onboarding_effect list" where
  "useOnboarding post clientId variables =
     (case onboarding post clientId variables of
        (effects, Inr d) \<Rightarrow> effects @ onSuccess d
      | (effects, Inl err) \<Rightarrow> effects @ onError err)"

section \<open>URL parameters (removeURLParameter)\<close>

text \<open>
  \<open>String.prototype.split\<close> and \<open>Array.prototype.join\<close> for a separator of one
  character, which is how \<open>removeURLParameter\<close> uses them (\<open>"?"\<close> and \<open>"&"\<close>). Splitting
  never gives an empty array: the empty string splits into one empty piece.
\<close>

fun split :: "string \<Rightarrow> char \<Rightarrow> string list" where
  "split [] c = [[]]"
| "split (x # xs) c =
     (if x = c then [] # split xs c
      else (case split xs c of y # ys \<Rightarrow> (x # y) # ys | [] \<Rightarrow> [[x]]))"

fun join :: "string list \<Rightarrow> char \<Rightarrow> string" where
  "join [] c = []"
| "join [x] c = x"
| "join (x # y # ys) c = x @ c # join (y # ys) c"

text \<open>
  \<open>removeURLParameter\<close>. The destructuring \<open>[base, queryString] = url.split("?")\<close> keeps
  the first two pieces; \<open>queryString\<close> is falsy when there is no second piece and when
  that piece is empty.
\<close>

definition removeURLParameter :: "string \<Rightarrow> string \<Rightarrow> string" where
  "removeURLParameter urlString parameter =
     (case split urlString CHR ''?'' of
        base # queryString # rest \<Rightarrow>
          if queryString = [] then urlString
          else (let params = filter (\<lambda>param. \<not> startsWith param (parameter @ ''=''))
                               (split queryString CHR ''&'')
                in if params \<noteq> [] then base @ ''?'' @ join params CHR ''&'' else base)
      | _ \<Rightarrow> urlString)"

text \<open>
  The query parameters of a URL, as the specification speaks of them: the text after the
  first \<open>"?"\<close>, cut at every \<open>"&"\<close>; a URL without \<open>"?"\<close> has none. This definition
  follows the specification's words, not the code: it is the notion the postconditions
  of \<open>removeURLParameter\<close> are stated with, and the function itself does not use it.
\<close>

definition queryParameters_spec :: "string \<Rightarrow> string list" where
  "queryParameters_spec urlString =
     (if CHR ''?'' \<in> set urlString
      then split (tl (dropWhile (\<lambda>c. c \<noteq> CHR ''?'') urlString)) CHR ''&''
      else [])"

section \<open>The camera-selection store (useCameraStore)\<close>

text \<open>
  The \<open>cameras\<close> object: its own properties, in the order of their creation, each key
  once. Reading \<open>obj[key]\<close> falls back to \<open>Object.prototype\<close> when the object has no own
  property of that name; the names that every plain object inherits are listed here, and
  all of them hold truthy values (functions, or the prototype itself).
\<close>

type_synonym Cameras = "(string \<times> bool) list"

definition objectPrototypeKeys :: "string list" where
  "objectPrototypeKeys =
     [''constructor'', ''__proto__'', ''hasOwnProperty'', ''isPrototypeOf'',
      ''propertyIsEnumerable'', ''toLocaleString'', ''toString'', ''valueOf'',
      ''__defineGetter__'', ''__defineSetter__'', ''__lookupGetter__'', ''__lookupSetter__'']"

definition hasOwn :: "Cameras \<Rightarrow> string \<Rightarrow> bool" where
  "hasOwn obj key = (map_of obj key \<noteq> None)"

text \<open>The truthiness of \<open>obj[key]\<close>.\<close>

definition getTruthy :: "Cameras \<Rightarrow> string \<Rightarrow> bool" where
  "getTruthy obj key =
     (case map_of obj key of Some v \<Rightarrow> v | None \<Rightarrow> key \<in> set objectPrototypeKeys)"

text \<open>
  \<open>obj[key] = v\<close> for a boolean \<open>v\<close>: an own property is overwritten in place, a new one
  is created last. The one exception is \<open>"__proto__"\<close> when it is not an own property:
  the assignment then reaches the setter of \<open>Object.prototype\<close>, which ignores a boolean.
\<close>

fun assign :: "Cameras \<Rightarrow> string \<Rightarrow> bool \<Rightarrow> Cameras" where
  "assign [] key v = [(key, v)]"
| "assign ((k, w) # obj) key v =
     (if k = key then (key, v) # obj else (k, w) # assign obj key v)"

definition setProperty :: "Cameras \<Rightarrow> string \<Rightarrow> bool \<Rightarrow> Cameras" where
  "setProperty obj key v =
     (if key = ''__proto__'' \<and> \<not> hasOwn obj key then obj else assign obj key v)"

text \<open>
  The order in which \<open>Object.entries\<close>, \<open>Object.keys\<close> and the spread \<open>{...obj}\<close> visit
  the own properties: array indices (canonical decimal strings below \<open>2\<^sup>3\<^sup>2 - 1\<close>) first,
  in ascending numeric order, then all other keys in the order of their creation.
\<close>

definition decimalValue :: "string \<Rightarrow> nat" where
  "decimalValue key = foldl (\<lambda>n c. 10 * n + (of_char c - 48)) 0 key"

definition isArrayIndex :: "string \<Rightarrow> bool" where
  "isArrayIndex key =
     (key \<noteq> [] \<and> list_all (\<lambda>c. 48 \<le> (of_char c :: nat) \<and> (of_char c :: nat) \<le> 57) key
      \<and> (key = ''0'' \<or> hd key \<noteq> CHR ''0'') \<and> decimalValue key < 4294967295)"

definition ownEntries :: "Cameras \<Rightarrow> Cameras" where
  "ownEntries obj =
     sort_key (\<lambda>(k, v). decimalValue k) (filter (\<lambda>(k, v). isArrayIndex k) obj)
     @ filter (\<lambda>(k, v). \<not> isArrayIndex k) obj"

text \<open>\<open>{...obj}\<close>: a new object with the own properties, created in that order.\<close>

definition spread :: "Cameras \<Rightarrow> Cameras" where
  "spread obj = ownEntries obj"

text \<open>The data of the store (its two functions are the operations below).\<close>

record CameraState =
  cameras :: Cameras
  selectedCameras :: "string list"
  selectionOrder :: "string list"

definition initialState :: CameraState where
  "initialState = \<lparr> cameras = [], selectedCameras = [], selectionOrder = [] \<rparr>"

definition toggleCamera :: "string \<Rightarrow> CameraState \<Rightarrow> CameraState" where
  "toggleCamera cameraIdentifier state =
     (let copied = spread (cameras state);
          newCameras = setProperty copied cameraIdentifier
                         (\<not> getTruthy copied cameraIdentifier);
          newSelectionOrder =
            (if getTruthy newCameras cameraIdentifier
             then selectionOrder state @ [cameraIdentifier]
             else filter (\<lambda>id. id \<noteq> cameraIdentifier) (selectionOrder state))
      in \<lparr> cameras = newCameras,
           selectedCameras = map fst (filter (\<lambda>(key, v). v) (ownEntries newCameras)),
           selectionOrder = newSelectionOrder \<rparr>)"

text \<open>
  In \<open>selectSingleCamera\<close> the loop runs over the keys the copy already has, so every
  assignment overwrites an own property and no key is added.
\<close>

definition selectSingleCamera :: "string \<Rightarrow> CameraState \<Rightarrow> CameraState" where
  "selectSingleCamera cameraIdentifier state =
     (let copied = spread (cameras state);
          newCameras = map (\<lambda>(key, v). (key, key = cameraIdentifier)) copied
      in \<lparr> cameras = newCameras,
           selectedCameras = [cameraIdentifier],
           selectionOrder = [cameraIdentifier] \<rparr>)"

text \<open>Sequences of the two operations, applied from left to right.\<close>

datatype store_op = ToggleCamera string | SelectSingleCamera string

fun apply_op :: "CameraState \<Rightarrow> store_op \<Rightarrow> CameraState" where
  "apply_op state (ToggleCamera cameraIdentifier) = toggleCamera cameraIdentifier state"
| "apply_op state (SelectSingleCamera cameraIdentifier) =
     selectSingleCamera cameraIdentifier state"

definition run_ops :: "store_op list \<Rightarrow> CameraState \<Rightarrow> CameraState" where
  "run_ops ops state = foldl apply_op state ops"

text \<open>
  The keys whose entry in the \<open>cameras\<close> map is \<open>true\<close>, and the invariant of the
  specification: \<open>selectedCameras\<close> is that set of keys, and \<open>selectionOrder\<close> holds the
  same identifiers, each once.
\<close>

definition trueKeys :: "Cameras \<Rightarrow> string list" where
  "trueKeys obj = [key \<leftarrow> map fst obj. map_of obj key = Some True]"

definition selectionInvariant :: "CameraState \<Rightarrow> bool" where
  "selectionInvariant state =
     (set (selectedCameras state) = set (trueKeys (cameras state))
      \<and> set (selectionOrder state) = set (trueKeys (cameras state))
      \<and> distinct (selectionOrder state))"

section \<open>Colour mode: results\<close>

lemma toggleColorMode_mode:
  "mode (toggleColorMode s) = (case mode s of Light \<Rightarrow> Dark | Dark \<Rightarrow> Light)"
  by (cases "mode s") (simp_all add: toggleColorMode_def)

lemma toggleColorMode_stored:
  "localStorage (toggleColorMode s) ''chosenMode'' = Some (modeString (mode (toggleColorMode s)))"
  by (simp add: toggleColorMode_def)

text \<open>
  C5. \<open>toggleColorMode\<close> maps light to dark and dark to light, each application stores
  the new mode under \<open>"chosenMode"\<close>, applying it twice gives the original mode back,
  and the value stored after a double toggle is the original mode.
\<close>

theorem toggleColorMode_involution:
  "mode (toggleColorMode (s\<lparr>mode := Light\<rparr>)) = Dark
   \<and> mode (toggleColorMode (s\<lparr>mode := Dark\<rparr>)) = Light
   \<and> localStorage (toggleColorMode s) ''chosenMode''
       = Some (modeString (mode (toggleColorMode s)))
   \<and> mode (toggleColorMode (toggleColorMode s)) = mode s
   \<and> localStorage (toggleColorMode (toggleColorMode s)) ''chosenMode''
       = Some (modeString (mode s))"
proof -
  have twice: "mode (toggleColorMode (toggleColorMode s)) = mode s"
    by (cases "mode s") (simp_all add: toggleColorMode_mode)
  have "localStorage (toggleColorMode (toggleColorMode s)) ''chosenMode''
          = Some (modeString (mode (toggleColorMode (toggleColorMode s))))"
    by (rule toggleColorMode_stored)
  with twice show ?thesis
    by (simp add: toggleColorMode_mode toggleColorMode_stored)
qed

text \<open>
  C6. On load, a stored \<open>"dark"\<close> gives mode dark and a stored \<open>"light"\<close> gives mode
  light, whatever the OS preference; any other stored value, and no stored value, gives
  the OS-preferred mode (dark when the media query matches, light otherwise).
\<close>

theorem loadColorMode_derivation:
  "(localStorage s ''chosenMode'' = Some ''dark''
       \<longrightarrow> mode (loadColorMode prefersDark s) = Dark)
   \<and> (localStorage s ''chosenMode'' = Some ''light''
       \<longrightarrow> mode (loadColorMode prefersDark s) = Light)
   \<and> (localStorage s ''chosenMode'' \<noteq> Some ''dark''
       \<and> localStorage s ''chosenMode'' \<noteq> Some ''light''
       \<longrightarrow> mode (loadColorMode prefersDark s) = (if prefersDark then Dark else Light))
   \<and> localStorage (loadColorMode prefersDark s) = localStorage s"
  by (simp add: loadColorMode_def preferredMode_def Let_def)

theorem loadColorMode_derivation_witness:
  "mode (loadColorMode False \<lparr>mode = Light, localStorage = [''chosenMode'' \<mapsto> ''dark'']\<rparr>) = Dark
   \<and> mode (loadColorMode True \<lparr>mode = Dark, localStorage = [''chosenMode'' \<mapsto> ''light'']\<rparr>) = Light
   \<and> mode (loadColorMode True \<lparr>mode = Light, localStorage = [''chosenMode'' \<mapsto> ''blue'']\<rparr>) = Dark
   \<and> mode (loadColorMode True \<lparr>mode = Light, localStorage = Map.empty\<rparr>) = Dark
   \<and> mode (loadColorMode False \<lparr>mode = Dark, localStorage = Map.empty\<rparr>) = Light"
  using loadColorMode_derivation
          [of "\<lparr>mode = Light, localStorage = [''chosenMode'' \<mapsto> ''dark'']\<rparr>" False]
        loadColorMode_derivation
          [of "\<lparr>mode = Dark, localStorage = [''chosenMode'' \<mapsto> ''light'']\<rparr>" True]
        loadColorMode_derivation
          [of "\<lparr>mode = Light, localStorage = [''chosenMode'' \<mapsto> ''blue'']\<rparr>" True]
        loadColorMode_derivation [of "\<lparr>mode = Light, localStorage = Map.empty\<rparr>" True]
        loadColorMode_derivation [of "\<lparr>mode = Dark, localStorage = Map.empty\<rparr>" False]
  by simp

section \<open>Truthiness and string helpers\<close>

lemma truthy_Some [simp]: "truthy (Some s) = (s \<noteq> [])"
  by (simp add: truthy_def)

lemma truthy_None [simp]: "truthy None = False"
  by (simp add: truthy_def)

lemma startsWith_refl: "startsWith s s"
  by (induction s) simp_all

lemma str_includes_empty: "str_includes s []"
  by (cases s) simp_all

lemma str_includes_refl: "str_includes s s"
  by (cases s) (simp_all add: startsWith_refl)

lemma str_includes_append: "str_includes (p @ s) s"
  by (induction p) (simp_all add: str_includes_refl)

section \<open>Recording player options: results\<close>

text \<open>
  C8 (as amended). For every recording the options hold exactly one source, of type
  \<open>"application/x-mpegURL"\<close>. Its \<open>src\<close> is \<open>hls_url\<close> followed by \<open>"?token="\<close> and the
  token when a non-empty auth token is given, and is \<open>hls_url\<close> itself when the token is
  missing or is the empty string.
\<close>

theorem getRecordingVideoJSOptions_sources:
  "(auth_token = Some t \<and> t \<noteq> [] \<longrightarrow>
      sources (getRecordingVideoJSOptions recording auth_token)
        = [\<lparr>src = hls_url recording @ ''?token='' @ t, source_type = ''application/x-mpegURL''\<rparr>])
   \<and> (auth_token = None \<or> auth_token = Some [] \<longrightarrow>
      sources (getRecordingVideoJSOptions recording auth_token)
        = [\<lparr>src = hls_url recording, source_type = ''application/x-mpegURL''\<rparr>])
   \<and> length (sources (getRecordingVideoJSOptions recording auth_token)) = 1"
  by (auto simp: getRecordingVideoJSOptions_def)

theorem getRecordingVideoJSOptions_sources_witness:
  "sources (getRecordingVideoJSOptions \<lparr>hls_url = ''/r/1/index.m3u8'', thumbnail_path = ''/t/1.jpg''\<rparr> (Some ''abc''))
     = [\<lparr>src = ''/r/1/index.m3u8?token=abc'', source_type = ''application/x-mpegURL''\<rparr>]
   \<and> sources (getRecordingVideoJSOptions \<lparr>hls_url = ''/r/1/index.m3u8'', thumbnail_path = ''/t/1.jpg''\<rparr> None)
     = [\<lparr>src = ''/r/1/index.m3u8'', source_type = ''application/x-mpegURL''\<rparr>]"
  using getRecordingVideoJSOptions_sources
          [of "Some ''abc''" "''abc''" "\<lparr>hls_url = ''/r/1/index.m3u8'', thumbnail_path = ''/t/1.jpg''\<rparr>"]
        getRecordingVideoJSOptions_sources
          [of None "''abc''" "\<lparr>hls_url = ''/r/1/index.m3u8'', thumbnail_path = ''/t/1.jpg''\<rparr>"]
  by simp

text \<open>
  C8 as stated fails for the empty string: it is an auth token that is provided, yet
  nothing is appended, because the conditional tests the token's truthiness.
\<close>

theorem getRecordingVideoJSOptions_empty_token:
  "sources (getRecordingVideoJSOptions \<lparr>hls_url = ''/r/1/index.m3u8'', thumbnail_path = ''/t/1.jpg''\<rparr> (Some ''''))
     = [\<lparr>src = ''/r/1/index.m3u8'', source_type = ''application/x-mpegURL''\<rparr>]
   \<and> sources (getRecordingVideoJSOptions \<lparr>hls_url = ''/r/1/index.m3u8'', thumbnail_path = ''/t/1.jpg''\<rparr> (Some ''''))
     \<noteq> [\<lparr>src = ''/r/1/index.m3u8'' @ ''?token='' @ '''', source_type = ''application/x-mpegURL''\<rparr>]"
  by (simp add: getRecordingVideoJSOptions_def)

section \<open>The request interceptor: results\<close>

text \<open>
  C2. While \<open>auth\<close> is not loaded, a request whose URL includes \<open>"/auth/enabled"\<close> is
  handed on unchanged and every other request is rejected with an error. Once \<open>auth\<close> is
  loaded with \<open>enabled = false\<close>, every request is handed on unchanged: no effect
  happens, \<open>getToken\<close> is not called and the headers are not written, whatever
  \<open>getToken\<close> and the header setter are.
\<close>

theorem interceptor_gating:
  "(urlIncludes (url config) ''/auth/enabled'' \<longrightarrow>
      useAuthAxiosInterceptor getToken headers_set None cookies config = ([], Inr config))
   \<and> (\<not> urlIncludes (url config) ''/auth/enabled'' \<longrightarrow>
      useAuthAxiosInterceptor getToken headers_set None cookies config
        = ([], Inl (Error ''Request blocked, auth not loaded yet.'')))
   \<and> (\<not> enabled a \<longrightarrow>
      useAuthAxiosInterceptor getToken headers_set (Some a) cookies config = ([], Inr config))"
  by (simp add: useAuthAxiosInterceptor_def)

theorem interceptor_gating_witness:
  "useAuthAxiosInterceptor (\<lambda>c. Inr (Some ''t1'')) (\<lambda>k v h. (k, v) # h) None Map.empty
       \<lparr>url = Some ''/auth/enabled'', headers = []\<rparr>
     = ([], Inr \<lparr>url = Some ''/auth/enabled'', headers = []\<rparr>)
   \<and> useAuthAxiosInterceptor (\<lambda>c. Inr (Some ''t1'')) (\<lambda>k v h. (k, v) # h) None Map.empty
       \<lparr>url = Some ''/cameras'', headers = []\<rparr>
     = ([], Inl (Error ''Request blocked, auth not loaded yet.''))
   \<and> useAuthAxiosInterceptor (\<lambda>c. Inr (Some ''t1'')) (\<lambda>k v h. (k, v) # h)
       (Some \<lparr>enabled = False, onboarding_complete = True\<rparr>) Map.empty
       \<lparr>url = Some ''/cameras'', headers = []\<rparr>
     = ([], Inr \<lparr>url = Some ''/cameras'', headers = []\<rparr>)"
  using interceptor_gating
          [of "\<lparr>url = Some ''/auth/enabled'', headers = []\<rparr>" "\<lambda>c. Inr (Some ''t1'')"
              "\<lambda>k v h. (k, v) # h" Map.empty "\<lparr>enabled = False, onboarding_complete = True\<rparr>"]
        interceptor_gating
          [of "\<lparr>url = Some ''/cameras'', headers = []\<rparr>" "\<lambda>c. Inr (Some ''t1'')"
              "\<lambda>k v h. (k, v) # h" Map.empty "\<lparr>enabled = False, onboarding_complete = True\<rparr>"]
  by (simp add: urlIncludes_def)

text \<open>
  C3 (as amended). With auth enabled and a URL that includes none of
  \<open>"/auth/enabled"\<close>, \<open>"/auth/login"\<close>, \<open>"/onboarding"\<close>: when the \<open>user\<close> cookie is missing or
  empty the interceptor shows the session-expired toast and rejects with
  \<open>"Invalid session."\<close>; when the \<open>user\<close> cookie is non-empty it shows no such toast and
  does not reject the request itself. A \<open>"/auth/token"\<close> request is then handed on
  unchanged; on any other request \<open>getToken\<close> is called, a rejection it raises is passed
  on as the interceptor's rejection, and when it returns the request is handed on. So
  with a non-empty cookie the only rejection is one that \<open>getToken\<close> raises.
\<close>

theorem session_check:
  assumes "enabled a"
    and "\<not> urlIncludes (url config) ''/auth/enabled''"
    and "\<not> urlIncludes (url config) ''/auth/login''"
    and "\<not> urlIncludes (url config) ''/onboarding''"
  shows "(\<not> truthy (cookies ''user'') \<longrightarrow>
            useAuthAxiosInterceptor getToken headers_set (Some a) cookies config
              = ([Toast_error ''Session expired, please log in again''],
                 Inl (Error ''Invalid session.'')))
         \<and> (truthy (cookies ''user'') \<longrightarrow>
            Toast_error ''Session expired, please log in again''
              \<notin> set (fst (useAuthAxiosInterceptor getToken headers_set (Some a) cookies config))
            \<and> (\<forall>e. snd (useAuthAxiosInterceptor getToken headers_set (Some a) cookies config)
                      = Inl e
                   \<longrightarrow> \<not> urlIncludes (url config) ''/auth/token'' \<and> getToken config = Inl e)
            \<and> (urlIncludes (url config) ''/auth/token'' \<longrightarrow>
                 useAuthAxiosInterceptor getToken headers_set (Some a) cookies config
                   = ([], Inr config))
            \<and> (\<forall>e. \<not> urlIncludes (url config) ''/auth/token'' \<and> getToken config = Inl e
                   \<longrightarrow> useAuthAxiosInterceptor getToken headers_set (Some a) cookies config
                         = ([GetToken_call], Inl e))
            \<and> (\<forall>token. \<not> urlIncludes (url config) ''/auth/token''
                     \<and> getToken config = Inr token
                   \<longrightarrow> fst (useAuthAxiosInterceptor getToken headers_set (Some a) cookies
                              config) = [GetToken_call]
                       \<and> (\<exists>c. snd (useAuthAxiosInterceptor getToken headers_set (Some a)
                                    cookies config) = Inr c)))"
proof (intro conjI impI allI)
  assume "\<not> truthy (cookies ''user'')"
  with assms show "useAuthAxiosInterceptor getToken headers_set (Some a) cookies config
      = ([Toast_error ''Session expired, please log in again''],
         Inl (Error ''Invalid session.''))"
    by (simp add: useAuthAxiosInterceptor_def)
next
  assume "truthy (cookies ''user'')"
  with assms show "Toast_error ''Session expired, please log in again''
      \<notin> set (fst (useAuthAxiosInterceptor getToken headers_set (Some a) cookies config))"
    by (auto simp: useAuthAxiosInterceptor_def split: sum.splits)
next
  fix e
  assume "truthy (cookies ''user'')"
    and "snd (useAuthAxiosInterceptor getToken headers_set (Some a) cookies config) = Inl e"
  with assms show "\<not> urlIncludes (url config) ''/auth/token''" and "getToken config = Inl e"
    by (auto simp: useAuthAxiosInterceptor_def split: sum.splits if_splits)
next
  assume "truthy (cookies ''user'')" and "urlIncludes (url config) ''/auth/token''"
  with assms show "useAuthAxiosInterceptor getToken headers_set (Some a) cookies config
      = ([], Inr config)"
    by (simp add: useAuthAxiosInterceptor_def)
next
  fix e
  assume "truthy (cookies ''user'')"
    and "\<not> urlIncludes (url config) ''/auth/token'' \<and> getToken config = Inl e"
  with assms show "useAuthAxiosInterceptor getToken headers_set (Some a) cookies config
      = ([GetToken_call], Inl e)"
    by (simp add: useAuthAxiosInterceptor_def)
next
  fix token
  assume "truthy (cookies ''user'')"
    and "\<not> urlIncludes (url config) ''/auth/token'' \<and> getToken config = Inr token"
  with assms
  show "fst (useAuthAxiosInterceptor getToken headers_set (Some a) cookies config)
          = [GetToken_call]"
    and "\<exists>c. snd (useAuthAxiosInterceptor getToken headers_set (Some a) cookies config)
          = Inr c"
    by (simp_all add: useAuthAxiosInterceptor_def)
qed

theorem session_check_witness:
  "useAuthAxiosInterceptor (\<lambda>c. Inr (Some ''t1'')) (\<lambda>k v h. (k, v) # h)
       (Some \<lparr>enabled = True, onboarding_complete = True\<rparr>) Map.empty
       \<lparr>url = Some ''/cameras'', headers = []\<rparr>
     = ([Toast_error ''Session expired, please log in again''], Inl (Error ''Invalid session.''))
   \<and> Toast_error ''Session expired, please log in again''
       \<notin> set (fst (useAuthAxiosInterceptor (\<lambda>c. Inr (Some ''t1'')) (\<lambda>k v h. (k, v) # h)
            (Some \<lparr>enabled = True, onboarding_complete = True\<rparr>) [''user'' \<mapsto> ''u1'']
            \<lparr>url = Some ''/cameras'', headers = []\<rparr>))
   \<and> (\<exists>c. snd (useAuthAxiosInterceptor (\<lambda>c. Inr (Some ''t1'')) (\<lambda>k v h. (k, v) # h)
            (Some \<lparr>enabled = True, onboarding_complete = True\<rparr>) [''user'' \<mapsto> ''u1'']
            \<lparr>url = Some ''/cameras'', headers = []\<rparr>) = Inr c)
   \<and> useAuthAxiosInterceptor (\<lambda>c. Inl (Error ''refresh failed'')) (\<lambda>k v h. (k, v) # h)
            (Some \<lparr>enabled = True, onboarding_complete = True\<rparr>) [''user'' \<mapsto> ''u1'']
            \<lparr>url = Some ''/cameras'', headers = []\<rparr>
       = ([GetToken_call], Inl (Error ''refresh failed''))"
proof -
  let ?a = "\<lparr>enabled = True, onboarding_complete = True\<rparr>"
  let ?c = "\<lparr>url = Some ''/cameras'', headers = [] :: (string \<times> string) list\<rparr>"
  let ?set = "\<lambda>k v (h :: (string \<times> string) list). (k, v) # h"
  let ?ok = "\<lambda>c :: (string \<times> string) list RequestConfig. Inr (Some ''t1'') :: js_error + string option"
  let ?fail = "\<lambda>c :: (string \<times> string) list RequestConfig.
                 Inl (Error ''refresh failed'') :: js_error + string option"
  have a: "enabled ?a" by simp
  have u1: "\<not> urlIncludes (url ?c) ''/auth/enabled''" by (simp add: urlIncludes_def)
  have u2: "\<not> urlIncludes (url ?c) ''/auth/login''" by (simp add: urlIncludes_def)
  have u3: "\<not> urlIncludes (url ?c) ''/onboarding''" by (simp add: urlIncludes_def)
  have u4: "\<not> urlIncludes (url ?c) ''/auth/token''" by (simp add: urlIncludes_def)
  have c0: "\<not> truthy (Map.empty ''user'')" by (simp add: truthy_def)
  have c1: "truthy ([''user'' \<mapsto> ''u1''] ''user'')" by (simp add: truthy_def)
  have g1: "\<not> urlIncludes (url ?c) ''/auth/token'' \<and> ?ok ?c = Inr (Some ''t1'')"
    using u4 by simp
  have g2: "\<not> urlIncludes (url ?c) ''/auth/token'' \<and> ?fail ?c = Inl (Error ''refresh failed'')"
    using u4 by simp
  note w0 = session_check [OF a u1 u2 u3, of Map.empty ?ok ?set, THEN conjunct1, rule_format, OF c0]
  note w1 = session_check [OF a u1 u2 u3, of "[''user'' \<mapsto> ''u1'']" ?ok ?set,
              THEN conjunct2, rule_format, OF c1]
  note w2 = session_check [OF a u1 u2 u3, of "[''user'' \<mapsto> ''u1'']" ?fail ?set,
              THEN conjunct2, rule_format, OF c1]
  note r1 = w0
  note r2 = w1 [THEN conjunct1]
  note r3 = w1 [THEN conjunct2, THEN conjunct2, THEN conjunct2, THEN conjunct2, rule_format,
              OF g1, THEN conjunct2]
  note r4 = w2 [THEN conjunct2, THEN conjunct2, THEN conjunct2, THEN conjunct1, rule_format,
              OF g2]
  from r1 r2 r3 r4 show ?thesis by (intro conjI)
qed

text \<open>
  C3 as stated fails when the \<open>user\<close> cookie exists with an empty value: the cookie is
  there, and the request is rejected with \<open>"Invalid session."\<close> all the same.
\<close>

theorem session_check_empty_cookie:
  "useAuthAxiosInterceptor (\<lambda>c. Inr (Some ''t1'')) (\<lambda>k v h. (k, v) # h)
       (Some \<lparr>enabled = True, onboarding_complete = True\<rparr>) [''user'' \<mapsto> '''']
       \<lparr>url = Some ''/cameras'', headers = []\<rparr>
     = ([Toast_error ''Session expired, please log in again''], Inl (Error ''Invalid session.''))
   \<and> [''user'' \<mapsto> ''''] ''user'' = Some ''''"
  by (simp add: useAuthAxiosInterceptor_def urlIncludes_def)

text \<open>
  C4 (as amended). With auth enabled, a non-empty \<open>user\<close> cookie and a URL that
  includes none of \<open>"/auth/enabled"\<close>, \<open>"/auth/login"\<close>, \<open>"/onboarding"\<close>: on a request that
  is not a \<open>"/auth/token"\<close> request, a non-empty token from \<open>getToken\<close> is written to the
  \<open>Authorization\<close> header as \<open>"Bearer "\<close> followed by the token, every other field of the
  configuration staying as it was, and with no token or an empty one the configuration is
  handed on unchanged; a \<open>"/auth/token"\<close> request is handed on unchanged, without a call
  of \<open>getToken\<close>.
\<close>

theorem bearer_token_attachment:
  assumes "enabled a"
    and "\<not> urlIncludes (url config) ''/auth/enabled''"
    and "\<not> urlIncludes (url config) ''/auth/login''"
    and "\<not> urlIncludes (url config) ''/onboarding''"
    and "truthy (cookies ''user'')"
  shows "(\<not> urlIncludes (url config) ''/auth/token'' \<and> getToken config = Inr (Some t) \<and> t \<noteq> []
            \<longrightarrow> useAuthAxiosInterceptor getToken headers_set (Some a) cookies config
                  = ([GetToken_call],
                     Inr (config\<lparr>headers :=
                            headers_set ''Authorization'' (''Bearer '' @ t) (headers config)\<rparr>)))
         \<and> (\<not> urlIncludes (url config) ''/auth/token''
              \<and> (getToken config = Inr None \<or> getToken config = Inr (Some []))
            \<longrightarrow> useAuthAxiosInterceptor getToken headers_set (Some a) cookies config
                  = ([GetToken_call], Inr config))
         \<and> (urlIncludes (url config) ''/auth/token''
            \<longrightarrow> useAuthAxiosInterceptor getToken headers_set (Some a) cookies config
                  = ([], Inr config))"
  using assms
  by (auto simp: useAuthAxiosInterceptor_def)

theorem bearer_token_attachment_witness:
  "useAuthAxiosInterceptor (\<lambda>c. Inr (Some ''t1'')) (\<lambda>k v h. (k, v) # h)
       (Some \<lparr>enabled = True, onboarding_complete = True\<rparr>) [''user'' \<mapsto> ''u1'']
       \<lparr>url = Some ''/cameras'', headers = []\<rparr>
     = ([GetToken_call],
        Inr \<lparr>url = Some ''/cameras'', headers = [(''Authorization'', ''Bearer t1'')]\<rparr>)
   \<and> useAuthAxiosInterceptor (\<lambda>c. Inr None) (\<lambda>k v h. (k, v) # h)
       (Some \<lparr>enabled = True, onboarding_complete = True\<rparr>) [''user'' \<mapsto> ''u1'']
       \<lparr>url = Some ''/cameras'', headers = []\<rparr>
     = ([GetToken_call], Inr \<lparr>url = Some ''/cameras'', headers = []\<rparr>)
   \<and> useAuthAxiosInterceptor (\<lambda>c. Inr (Some ''t1'')) (\<lambda>k v h. (k, v) # h)
       (Some \<lparr>enabled = True, onboarding_complete = True\<rparr>) [''user'' \<mapsto> ''u1'']
       \<lparr>url = Some ''/auth/token'', headers = []\<rparr>
     = ([], Inr \<lparr>url = Some ''/auth/token'', headers = []\<rparr>)"
proof -
  let ?a = "\<lparr>enabled = True, onboarding_complete = True\<rparr>"
  let ?c = "\<lparr>url = Some ''/cameras'', headers = [] :: (string \<times> string) list\<rparr>"
  let ?t = "\<lparr>url = Some ''/auth/token'', headers = [] :: (string \<times> string) list\<rparr>"
  let ?set = "\<lambda>k v (h :: (string \<times> string) list). (k, v) # h"
  have a: "enabled ?a" by simp
  have u1: "\<not> urlIncludes (url ?c) ''/auth/enabled''" by (simp add: urlIncludes_def)
  have u2: "\<not> urlIncludes (url ?c) ''/auth/login''" by (simp add: urlIncludes_def)
  have u3: "\<not> urlIncludes (url ?c) ''/onboarding''" by (simp add: urlIncludes_def)
  have u4: "\<not> urlIncludes (url ?c) ''/auth/token''" by (simp add: urlIncludes_def)
  have t1: "\<not> urlIncludes (url ?t) ''/auth/enabled''" by (simp add: urlIncludes_def)
  have t2: "\<not> urlIncludes (url ?t) ''/auth/login''" by (simp add: urlIncludes_def)
  have t3: "\<not> urlIncludes (url ?t) ''/onboarding''" by (simp add: urlIncludes_def)
  have t4: "urlIncludes (url ?t) ''/auth/token''" by (simp add: urlIncludes_def)
  have c1: "truthy ([''user'' \<mapsto> ''u1''] ''user'')" by (simp add: truthy_def)
  have n: "''t1'' \<noteq> []" by simp
  from bearer_token_attachment [of ?a ?c "[''user'' \<mapsto> ''u1'']" "\<lambda>c. Inr (Some ''t1'')" "''t1''" ?set,
         OF a u1 u2 u3 c1] u4 n
  have "useAuthAxiosInterceptor (\<lambda>c. Inr (Some ''t1'')) ?set (Some ?a) [''user'' \<mapsto> ''u1''] ?c
     = ([GetToken_call],
        Inr (?c\<lparr>headers := ?set ''Authorization'' (''Bearer '' @ ''t1'') (headers ?c)\<rparr>))"
    by blast
  then have r1: "useAuthAxiosInterceptor (\<lambda>c. Inr (Some ''t1'')) ?set (Some ?a)
       [''user'' \<mapsto> ''u1''] ?c
     = ([GetToken_call],
        Inr \<lparr>url = Some ''/cameras'', headers = [(''Authorization'', ''Bearer t1'')]\<rparr>)"
    by simp
  from bearer_token_attachment [of ?a ?c "[''user'' \<mapsto> ''u1'']" "\<lambda>c. Inr None" "''t1''" ?set,
         OF a u1 u2 u3 c1] u4
  have r2: "useAuthAxiosInterceptor (\<lambda>c. Inr None) ?set (Some ?a) [''user'' \<mapsto> ''u1''] ?c
     = ([GetToken_call], Inr ?c)"
    by blast
  from bearer_token_attachment [of ?a ?t "[''user'' \<mapsto> ''u1'']" "\<lambda>c. Inr (Some ''t1'')" "''t1''" ?set,
         OF a t1 t2 t3 c1] t4
  have r3: "useAuthAxiosInterceptor (\<lambda>c. Inr (Some ''t1'')) ?set (Some ?a)
       [''user'' \<mapsto> ''u1''] ?t = ([], Inr ?t)"
    by blast
  from r1 r2 r3 show ?thesis by blast
qed

text \<open>
  C4 as stated fails on empty strings. With a \<open>user\<close> cookie that exists but is empty,
  an ordinary request and a \<open>"/auth/token"\<close> request are both rejected; and when
  \<open>getToken\<close> returns the empty string, no \<open>Authorization\<close> header is written.
\<close>

theorem bearer_token_empty_strings:
  "useAuthAxiosInterceptor (\<lambda>c. Inr (Some ''t1'')) (\<lambda>k v h. (k, v) # h)
       (Some \<lparr>enabled = True, onboarding_complete = True\<rparr>) [''user'' \<mapsto> '''']
       \<lparr>url = Some ''/cameras'', headers = []\<rparr>
     = ([Toast_error ''Session expired, please log in again''], Inl (Error ''Invalid session.''))
   \<and> useAuthAxiosInterceptor (\<lambda>c. Inr (Some ''t1'')) (\<lambda>k v h. (k, v) # h)
       (Some \<lparr>enabled = True, onboarding_complete = True\<rparr>) [''user'' \<mapsto> '''']
       \<lparr>url = Some ''/auth/token'', headers = []\<rparr>
     = ([Toast_error ''Session expired, please log in again''], Inl (Error ''Invalid session.''))
   \<and> useAuthAxiosInterceptor (\<lambda>c. Inr (Some '''')) (\<lambda>k v h. (k, v) # h)
       (Some \<lparr>enabled = True, onboarding_complete = True\<rparr>) [''user'' \<mapsto> ''u1'']
       \<lparr>url = Some ''/cameras'', headers = []\<rparr>
     = ([GetToken_call], Inr \<lparr>url = Some ''/cameras'', headers = []\<rparr>)"
  by (simp add: useAuthAxiosInterceptor_def urlIncludes_def)

section \<open>Onboarding: results\<close>

lemma onError_server:
  assumes "response err = Some d" and "data_error d = Some e" and "e \<noteq> []"
  shows "onError err = [ToastError (''Error creating user: '' @ e)]"
  using assms unfolding onError_def by simp

lemma onError_generic:
  assumes "response err = None \<or> \<not> truthy (data_error (the (response err)))"
  shows "onError err = [ToastError (''An error occurred: '' @ message err)]"
  using assms unfolding onError_def by auto

lemma onError_present:
  assumes "response err = Some d" and "data_error d = Some e"
  shows "onError err
           = [ToastError (if e = [] then ''An error occurred: '' @ message err
                          else ''Error creating user: '' @ e)]"
proof (cases "e = []")
  case True
  with assms show ?thesis by (simp add: onError_generic)
next
  case False
  with assms show ?thesis by (simp add: onError_server)
qed

lemma present_message_includes:
  "str_includes (if e = [] then ''An error occurred: '' @ m
                 else ''Error creating user: '' @ e) e"
proof (cases "e = []")
  case True
  have "str_includes (''An error occurred: '' @ m) []" by (rule str_includes_empty)
  with True show ?thesis by simp
next
  case False
  have "str_includes (''Error creating user: '' @ e) e" by (rule str_includes_append)
  with False show ?thesis by simp
qed

lemma onboarding_fst:
  "fst (onboarding post clientId variables)
     = [HttpPost ''/onboarding''
          \<lparr>name = name variables, username = username variables,
           password = password variables, client_id = clientId\<rparr>]"
  by (simp add: onboarding_def Let_def)

lemma useOnboarding_success:
  assumes "post ''/onboarding''
            \<lparr>name = name variables, username = username variables,
             password = password variables, client_id = clientId\<rparr> = Inr resp"
  shows "useOnboarding post clientId variables
           = fst (onboarding post clientId variables)
             @ [StoreTokens (data resp), ToastSuccess ''User created successfully'']"
  using assms by (simp add: useOnboarding_def onboarding_def onSuccess_def Let_def)

lemma useOnboarding_failure:
  assumes "post ''/onboarding''
            \<lparr>name = name variables, username = username variables,
             password = password variables, client_id = clientId\<rparr> = Inl err"
  shows "useOnboarding post clientId variables
           = fst (onboarding post clientId variables) @ onError err"
  using assms by (simp add: useOnboarding_def onboarding_def Let_def)

text \<open>
  C7. The onboarding request posts \<open>name\<close>, \<open>username\<close>, \<open>password\<close> and \<open>client_id\<close> to
  \<open>"/onboarding"\<close>. On success \<open>storeTokens\<close> is called with the response data and the
  success toast \<open>"User created successfully"\<close> is shown. On error one error toast is
  shown: when \<open>error.response.data.error\<close> is present the toast contains it (for a
  non-empty error field the toast is \<open>"Error creating user: "\<close> followed by the field);
  when the response or the error field is missing the toast is
  \<open>"An error occurred: "\<close> followed by \<open>error.message\<close>.
\<close>

theorem useOnboarding_outcomes:
  "fst (onboarding post clientId variables)
     = [HttpPost ''/onboarding''
          \<lparr>name = name variables, username = username variables,
           password = password variables, client_id = clientId\<rparr>]
   \<and> (\<forall>resp. post ''/onboarding''
            \<lparr>name = name variables, username = username variables,
             password = password variables, client_id = clientId\<rparr> = Inr resp
        \<longrightarrow> useOnboarding post clientId variables
              = fst (onboarding post clientId variables)
                @ [StoreTokens (data resp), ToastSuccess ''User created successfully''])
   \<and> (\<forall>err d e. post ''/onboarding''
            \<lparr>name = name variables, username = username variables,
             password = password variables, client_id = clientId\<rparr> = Inl err
          \<and> response err = Some d \<and> data_error d = Some e
        \<longrightarrow> (\<exists>msg. useOnboarding post clientId variables
                      = fst (onboarding post clientId variables) @ [ToastError msg]
                    \<and> str_includes msg e
                    \<and> (e \<noteq> [] \<longrightarrow> msg = ''Error creating user: '' @ e)))
   \<and> (\<forall>err. post ''/onboarding''
            \<lparr>name = name variables, username = username variables,
             password = password variables, client_id = clientId\<rparr> = Inl err
          \<and> (response err = None \<or> data_error (the (response err)) = None)
        \<longrightarrow> useOnboarding post clientId variables
              = fst (onboarding post clientId variables)
                @ [ToastError (''An error occurred: '' @ message err)])"
proof (intro conjI allI impI)
  show "fst (onboarding post clientId variables)
     = [HttpPost ''/onboarding''
          \<lparr>name = name variables, username = username variables,
           password = password variables, client_id = clientId\<rparr>]"
    by (rule onboarding_fst)
next
  fix resp
  assume "post ''/onboarding''
            \<lparr>name = name variables, username = username variables,
             password = password variables, client_id = clientId\<rparr> = Inr resp"
  then show "useOnboarding post clientId variables
              = fst (onboarding post clientId variables)
                @ [StoreTokens (data resp), ToastSuccess ''User created successfully'']"
    by (rule useOnboarding_success)
next
  fix err d e
  assume a: "post ''/onboarding''
            \<lparr>name = name variables, username = username variables,
             password = password variables, client_id = clientId\<rparr> = Inl err
          \<and> response err = Some d \<and> data_error d = Some e"
  let ?msg = "if e = [] then ''An error occurred: '' @ message err
              else ''Error creating user: '' @ e"
  from a have "useOnboarding post clientId variables
           = fst (onboarding post clientId variables) @ onError err"
    by (intro useOnboarding_failure) simp
  with a have "useOnboarding post clientId variables
           = fst (onboarding post clientId variables) @ [ToastError ?msg]"
    using onError_present [of err d e] by simp
  moreover have "str_includes ?msg e" by (rule present_message_includes)
  moreover have "e \<noteq> [] \<longrightarrow> ?msg = ''Error creating user: '' @ e" by simp
  ultimately show "\<exists>msg. useOnboarding post clientId variables
                      = fst (onboarding post clientId variables) @ [ToastError msg]
                    \<and> str_includes msg e
                    \<and> (e \<noteq> [] \<longrightarrow> msg = ''Error creating user: '' @ e)"
    by blast
next
  fix err
  assume a: "post ''/onboarding''
            \<lparr>name = name variables, username = username variables,
             password = password variables, client_id = clientId\<rparr> = Inl err
          \<and> (response err = None \<or> data_error (the (response err)) = None)"
  then have "response err = None \<or> \<not> truthy (data_error (the (response err)))"
    by auto
  moreover from a have "useOnboarding post clientId variables
           = fst (onboarding post clientId variables) @ onError err"
    by (intro useOnboarding_failure) simp
  ultimately show "useOnboarding post clientId variables
              = fst (onboarding post clientId variables)
                @ [ToastError (''An error occurred: '' @ message err)]"
    using onError_generic [of err] by simp
qed

theorem useOnboarding_outcomes_witness:
  "useOnboarding (\<lambda>u b. Inr \<lparr>data = ''tokens''\<rparr>) ''c1''
       \<lparr>name = ''Ann'', username = ''ann'', password = ''pw''\<rparr>
     = [HttpPost ''/onboarding''
          \<lparr>name = ''Ann'', username = ''ann'', password = ''pw'', client_id = ''c1''\<rparr>,
        StoreTokens ''tokens'', ToastSuccess ''User created successfully'']
   \<and> useOnboarding
       (\<lambda>u b. Inl \<lparr>response = Some \<lparr>data_error = Some ''taken''\<rparr>, message = ''m''\<rparr>
          :: APIErrorResponse + string AxiosResponse) ''c1''
       \<lparr>name = ''Ann'', username = ''ann'', password = ''pw''\<rparr>
     = [HttpPost ''/onboarding''
          \<lparr>name = ''Ann'', username = ''ann'', password = ''pw'', client_id = ''c1''\<rparr>,
        ToastError ''Error creating user: taken'']
   \<and> useOnboarding
       (\<lambda>u b. Inl \<lparr>response = None, message = ''Network Error''\<rparr>
          :: APIErrorResponse + string AxiosResponse) ''c1''
       \<lparr>name = ''Ann'', username = ''ann'', password = ''pw''\<rparr>
     = [HttpPost ''/onboarding''
          \<lparr>name = ''Ann'', username = ''ann'', password = ''pw'', client_id = ''c1''\<rparr>,
        ToastError ''An error occurred: Network Error'']"
  using useOnboarding_outcomes
          [of "\<lambda>u b. Inr \<lparr>data = ''tokens''\<rparr>" "''c1''"
              "\<lparr>name = ''Ann'', username = ''ann'', password = ''pw''\<rparr>"]
        useOnboarding_outcomes
          [of "\<lambda>u b. Inl \<lparr>response = Some \<lparr>data_error = Some ''taken''\<rparr>, message = ''m''\<rparr>
                 :: APIErrorResponse + string AxiosResponse" "''c1''"
              "\<lparr>name = ''Ann'', username = ''ann'', password = ''pw''\<rparr>"]
        useOnboarding_outcomes
          [of "\<lambda>u b. Inl \<lparr>response = None, message = ''Network Error''\<rparr>
                 :: APIErrorResponse + string AxiosResponse" "''c1''"
              "\<lparr>name = ''Ann'', username = ''ann'', password = ''pw''\<rparr>"]
  by simp

section \<open>URL parameters: results\<close>

lemma split_not_Nil: "split s c \<noteq> []"
  by (induction s) (auto split: list.splits)

lemma split_pieces_free: "x \<in> set (split s c) \<Longrightarrow> c \<notin> set x"
proof (induction s arbitrary: x)
  case Nil
  then show ?case by simp
next
  case (Cons a s)
  show ?case
  proof (cases "a = c")
    case True
    with Cons show ?thesis by auto
  next
    case False
    obtain y ys where r: "split s c = y # ys"
      using split_not_Nil [of s c] by (cases "split s c") auto
    with False Cons.prems have "x = a # y \<or> x \<in> set ys" by simp
    with Cons.IH [of y] Cons.IH [of x] r False show ?thesis by auto
  qed
qed

lemma split_pieces_subset: "x \<in> set (split s c) \<Longrightarrow> set x \<subseteq> set s"
proof (induction s arbitrary: x)
  case Nil
  then show ?case by simp
next
  case (Cons a s)
  show ?case
  proof (cases "a = c")
    case True
    with Cons show ?thesis by auto
  next
    case False
    obtain y ys where r: "split s c = y # ys"
      using split_not_Nil [of s c] by (cases "split s c") auto
    with False Cons.prems have "x = a # y \<or> x \<in> set ys" by simp
    with Cons.IH [of y] Cons.IH [of x] r show ?thesis by auto
  qed
qed

lemma split_free: "c \<notin> set s \<Longrightarrow> split s c = [s]"
  by (induction s) auto

lemma split_append_sep: "c \<notin> set a \<Longrightarrow> split (a @ c # s) c = a # split s c"
  by (induction a) auto

lemma join_Cons: "ys \<noteq> [] \<Longrightarrow> join (x # ys) c = x @ c # join ys c"
  by (cases ys) simp_all

lemma split_join:
  "xs \<noteq> [] \<Longrightarrow> (\<And>x. x \<in> set xs \<Longrightarrow> c \<notin> set x) \<Longrightarrow> split (join xs c) c = xs"
proof (induction xs)
  case Nil
  then show ?case by simp
next
  case (Cons x xs)
  show ?case
  proof (cases "xs = []")
    case True
    with Cons.prems show ?thesis by (simp add: split_free)
  next
    case False
    with Cons have "split (join xs c) c = xs" by simp
    with False Cons.prems show ?thesis by (simp add: join_Cons split_append_sep)
  qed
qed

lemma join_split: "join (split s c) c = s"
proof (induction s)
  case Nil
  then show ?case by simp
next
  case (Cons a s)
  obtain y ys where r: "split s c = y # ys"
    using split_not_Nil [of s c] by (cases "split s c") auto
  with Cons show ?case by (cases ys) auto
qed

lemma join_free:
  "(\<And>x. x \<in> set xs \<Longrightarrow> d \<notin> set x) \<Longrightarrow> d \<noteq> c \<Longrightarrow> d \<notin> set (join xs c)"
  by (induction xs c rule: join.induct) auto

lemma length_split: "length (split s c) = Suc (count_list s c)"
  by (induction s) (auto split: list.splits simp: split_not_Nil)

lemma startsWith_Nil: "startsWith [] (p @ ''='') = False"
  by (cases p) simp_all

text \<open>The three ways the function returns.\<close>

lemma removeURLParameter_no_query:
  assumes "CHR ''?'' \<notin> set u"
  shows "removeURLParameter u p = u"
  using assms by (simp add: removeURLParameter_def split_free)

lemma removeURLParameter_empty_query:
  assumes "split u CHR ''?'' = b # [] # rest"
  shows "removeURLParameter u p = u"
  using assms by (simp add: removeURLParameter_def)

lemma removeURLParameter_query:
  assumes "split u CHR ''?'' = b # q # rest" and "q \<noteq> []"
  shows "removeURLParameter u p
           = (let params = filter (\<lambda>param. \<not> startsWith param (p @ ''=''))
                             (split q CHR ''&'')
              in if params = [] then b else b @ CHR ''?'' # join params CHR ''&'')"
  using assms by (simp add: removeURLParameter_def Let_def)

lemma removeURLParameter_idem:
  "removeURLParameter (removeURLParameter u p) p = removeURLParameter u p"
proof (cases "split u CHR ''?''")
  case Nil
  then show ?thesis by (simp add: split_not_Nil)
next
  case (Cons b t)
  note outer = Cons
  show ?thesis
  proof (cases t)
    case Nil
    with outer show ?thesis by (simp add: removeURLParameter_def)
  next
    case (Cons q rest)
    with outer have sp: "split u CHR ''?'' = b # q # rest" by simp
    have b_free: "CHR ''?'' \<notin> set b"
      using split_pieces_free [of b u "CHR ''?''"] sp by simp
    have q_free: "CHR ''?'' \<notin> set q"
      using split_pieces_free [of q u "CHR ''?''"] sp by simp
    show ?thesis
    proof (cases "q = []")
      case True
      with sp show ?thesis by (simp add: removeURLParameter_empty_query)
    next
      case False
      let ?P = "\<lambda>param. \<not> startsWith param (p @ ''='')"
      let ?ps = "filter ?P (split q CHR ''&'')"
      show ?thesis
      proof (cases "?ps = []")
        case True
        with sp False have "removeURLParameter u p = b"
          by (simp add: removeURLParameter_query)
        with b_free show ?thesis by (simp add: removeURLParameter_no_query)
      next
        case nonempty: False
        let ?j = "join ?ps CHR ''&''"
        from sp False nonempty have r: "removeURLParameter u p = b @ CHR ''?'' # ?j"
          by (simp add: removeURLParameter_query)
        have amp: "CHR ''&'' \<notin> set x" if "x \<in> set ?ps" for x
          using that split_pieces_free [of x q "CHR ''&''"] by simp
        have qm: "CHR ''?'' \<notin> set x" if "x \<in> set ?ps" for x
          using that split_pieces_subset [of x q "CHR ''&''"] q_free by auto
        have j_free: "CHR ''?'' \<notin> set ?j"
          using qm by (intro join_free) simp_all
        have sp': "split (b @ CHR ''?'' # ?j) CHR ''?'' = b # ?j # []"
          using b_free j_free by (simp add: split_append_sep split_free)
        show ?thesis
        proof (cases "?j = []")
          case True
          with sp' show ?thesis
            unfolding r by (simp add: removeURLParameter_empty_query)
        next
          case False
          have roundtrip: "split ?j CHR ''&'' = ?ps"
            using nonempty amp by (intro split_join) simp_all
          have "removeURLParameter (b @ CHR ''?'' # ?j) p = b @ CHR ''?'' # ?j"
            using removeURLParameter_query [OF sp' False, of p] nonempty
            by (simp add: roundtrip Let_def)
          then show ?thesis unfolding r .
        qed
      qed
    qed
  qed
qed

lemma queryParameters_no_query: "CHR ''?'' \<notin> set u \<Longrightarrow> queryParameters_spec u = []"
  by (simp add: queryParameters_spec_def)

lemma queryParameters_query:
  assumes "CHR ''?'' \<notin> set b"
  shows "queryParameters_spec (b @ CHR ''?'' # q) = split q CHR ''&''"
proof -
  have "dropWhile (\<lambda>c. c \<noteq> CHR ''?'') (b @ CHR ''?'' # q) = CHR ''?'' # q"
    using assms by (induction b) auto
  then show ?thesis by (simp add: queryParameters_spec_def)
qed

lemma single_query:
  assumes "count_list u CHR ''?'' = 1"
  obtains b q where "split u CHR ''?'' = [b, q]" and "u = b @ CHR ''?'' # q"
    and "CHR ''?'' \<notin> set b" and "CHR ''?'' \<notin> set q"
proof -
  from assms have "length (split u CHR ''?'') = 2"
    by (simp add: length_split)
  then obtain b q where sp: "split u CHR ''?'' = [b, q]"
    by (auto simp: length_Suc_conv numeral_2_eq_2)
  have "join (split u CHR ''?'') CHR ''?'' = u" by (rule join_split)
  with sp have "u = b @ CHR ''?'' # q" by simp
  moreover have "CHR ''?'' \<notin> set b" "CHR ''?'' \<notin> set q"
    using split_pieces_free [of b u "CHR ''?''"] split_pieces_free [of q u "CHR ''?''"] sp
    by simp_all
  ultimately show ?thesis using sp that by blast
qed

lemma removeURLParameter_preserves:
  assumes "count_list u CHR ''?'' \<le> 1"
  shows "queryParameters_spec (removeURLParameter u p)
           = filter (\<lambda>q. \<not> startsWith q (p @ ''='')) (queryParameters_spec u)"
proof (cases "count_list u CHR ''?'' = 0")
  case True
  then have "CHR ''?'' \<notin> set u" by (simp add: count_list_0_iff)
  then show ?thesis
    by (simp add: removeURLParameter_no_query queryParameters_no_query)
next
  case False
  with assms have "count_list u CHR ''?'' = 1" by simp
  then obtain b q where sp: "split u CHR ''?'' = [b, q]" and u: "u = b @ CHR ''?'' # q"
    and b_free: "CHR ''?'' \<notin> set b" and q_free: "CHR ''?'' \<notin> set q"
    by (rule single_query)
  have qp: "queryParameters_spec u = split q CHR ''&''"
    unfolding u using b_free by (rule queryParameters_query)
  let ?P = "\<lambda>param. \<not> startsWith param (p @ ''='')"
  let ?ps = "filter ?P (split q CHR ''&'')"
  show ?thesis
  proof (cases "q = []")
    case True
    with sp have "removeURLParameter u p = u"
      by (simp add: removeURLParameter_empty_query)
    with qp True show ?thesis by (simp add: startsWith_Nil)
  next
    case False
    show ?thesis
    proof (cases "?ps = []")
      case True
      with sp False have "removeURLParameter u p = b"
        by (simp add: removeURLParameter_query)
      with True b_free qp show ?thesis by (simp add: queryParameters_no_query)
    next
      case nonempty: False
      from sp False nonempty
      have r: "removeURLParameter u p = b @ CHR ''?'' # join ?ps CHR ''&''"
        by (simp add: removeURLParameter_query)
      have amp: "CHR ''&'' \<notin> set x" if "x \<in> set ?ps" for x
        using that split_pieces_free [of x q "CHR ''&''"] by simp
      have "split (join ?ps CHR ''&'') CHR ''&'' = ?ps"
        using nonempty amp by (intro split_join) simp_all
      then show ?thesis
        unfolding r qp using b_free by (simp add: queryParameters_query)
    qed
  qed
qed

lemma removeURLParameter_drops_mark:
  assumes "count_list u CHR ''?'' \<le> 1"
    and "filter (\<lambda>q. \<not> startsWith q (p @ ''='')) (queryParameters_spec u) = []"
  shows "CHR ''?'' \<notin> set (removeURLParameter u p)"
proof (cases "count_list u CHR ''?'' = 0")
  case True
  then have "CHR ''?'' \<notin> set u" by (simp add: count_list_0_iff)
  then show ?thesis by (simp add: removeURLParameter_no_query)
next
  case False
  with assms have "count_list u CHR ''?'' = 1" by simp
  then obtain b q where sp: "split u CHR ''?'' = [b, q]" and u: "u = b @ CHR ''?'' # q"
    and b_free: "CHR ''?'' \<notin> set b" and q_free: "CHR ''?'' \<notin> set q"
    by (rule single_query)
  have qp: "queryParameters_spec u = split q CHR ''&''"
    unfolding u using b_free by (rule queryParameters_query)
  have "q \<noteq> []"
  proof
    assume "q = []"
    with qp assms(2) show False by (simp add: startsWith_Nil)
  qed
  with sp assms(2) qp have "removeURLParameter u p = b"
    by (simp add: removeURLParameter_query)
  with b_free show ?thesis by simp
qed

lemma removeURLParameter_trailing_mark:
  assumes "count_list u CHR ''?'' \<le> 1" and "queryParameters_spec u = [[]]"
  shows "removeURLParameter u p = u"
proof (cases "count_list u CHR ''?'' = 0")
  case True
  then have "CHR ''?'' \<notin> set u" by (simp add: count_list_0_iff)
  then show ?thesis by (rule removeURLParameter_no_query)
next
  case False
  with assms have "count_list u CHR ''?'' = 1" by simp
  then obtain b q where sp: "split u CHR ''?'' = [b, q]" and u: "u = b @ CHR ''?'' # q"
    and b_free: "CHR ''?'' \<notin> set b"
    by (rule single_query)
  have "queryParameters_spec u = split q CHR ''&''"
    unfolding u using b_free by (rule queryParameters_query)
  with assms(2) have "split q CHR ''&'' = [[]]" by simp
  then have "join (split q CHR ''&'') CHR ''&'' = []" by simp
  then have "q = []" by (simp only: join_split)
  with sp show ?thesis by (simp add: removeURLParameter_empty_query)
qed

text \<open>
  What holds of \<open>removeURLParameter\<close> on a URL with at most one \<open>"?"\<close>: the query
  parameters of the result are those of the URL that do not start with the parameter name
  followed by \<open>"="\<close>, in their original order, and no \<open>"?"\<close> is left when none remains (a
  URL that ends with its \<open>"?"\<close> is returned as it is). On every URL: one without \<open>"?"\<close> is
  returned unchanged, and the function is idempotent.
\<close>

lemma removeURLParameter_single_question_mark:
  "(count_list u CHR ''?'' \<le> 1 \<longrightarrow>
      (\<forall>q \<in> set (queryParameters_spec (removeURLParameter u p)). \<not> startsWith q (p @ ''=''))
      \<and> queryParameters_spec (removeURLParameter u p)
          = filter (\<lambda>q. \<not> startsWith q (p @ ''='')) (queryParameters_spec u)
      \<and> (filter (\<lambda>q. \<not> startsWith q (p @ ''='')) (queryParameters_spec u) = []
          \<longrightarrow> CHR ''?'' \<notin> set (removeURLParameter u p))
      \<and> (queryParameters_spec u = [[]] \<longrightarrow> removeURLParameter u p = u))
   \<and> (CHR ''?'' \<notin> set u \<longrightarrow> removeURLParameter u p = u)
   \<and> removeURLParameter (removeURLParameter u p) p = removeURLParameter u p"
proof (intro conjI impI)
  assume c: "count_list u CHR ''?'' \<le> 1"
  then have eq: "queryParameters_spec (removeURLParameter u p)
           = filter (\<lambda>q. \<not> startsWith q (p @ ''='')) (queryParameters_spec u)"
    by (rule removeURLParameter_preserves)
  then show "\<forall>q \<in> set (queryParameters_spec (removeURLParameter u p)). \<not> startsWith q (p @ ''='')"
    by simp
  from eq show "queryParameters_spec (removeURLParameter u p)
           = filter (\<lambda>q. \<not> startsWith q (p @ ''='')) (queryParameters_spec u)" .
  assume "filter (\<lambda>q. \<not> startsWith q (p @ ''='')) (queryParameters_spec u) = []"
  with c show "CHR ''?'' \<notin> set (removeURLParameter u p)"
    by (rule removeURLParameter_drops_mark)
next
  assume "count_list u CHR ''?'' \<le> 1" and "queryParameters_spec u = [[]]"
  then show "removeURLParameter u p = u" by (rule removeURLParameter_trailing_mark)
next
  assume "CHR ''?'' \<notin> set u"
  then show "removeURLParameter u p = u" by (rule removeURLParameter_no_query)
next
  show "removeURLParameter (removeURLParameter u p) p = removeURLParameter u p"
    by (rule removeURLParameter_idem)
qed

lemma removeURLParameter_single_question_mark_example:
  "count_list ''/events?date=1&camera=c2&tab=x'' CHR ''?'' \<le> 1
   \<and> queryParameters_spec (removeURLParameter ''/events?date=1&camera=c2&tab=x'' ''camera'')
       = [''date=1'', ''tab=x'']
   \<and> filter (\<lambda>q. \<not> startsWith q (''camera'' @ ''='')) (queryParameters_spec ''/events?camera=c2'') = []
   \<and> CHR ''?'' \<notin> set (removeURLParameter ''/events?camera=c2'' ''camera'')
   \<and> CHR ''?'' \<notin> set ''/events''
   \<and> removeURLParameter ''/events'' ''camera'' = ''/events''
   \<and> queryParameters_spec ''/events?'' = [[]]
   \<and> removeURLParameter ''/events?'' ''camera'' = ''/events?''"
proof -
  have c1: "count_list ''/events?date=1&camera=c2&tab=x'' CHR ''?'' \<le> 1" by simp
  have c2: "count_list ''/events?camera=c2'' CHR ''?'' \<le> 1" by simp
  have f1: "filter (\<lambda>q. \<not> startsWith q (''camera'' @ ''=''))
              (queryParameters_spec ''/events?date=1&camera=c2&tab=x'') = [''date=1'', ''tab=x'']"
    by (simp add: queryParameters_spec_def)
  have f2: "filter (\<lambda>q. \<not> startsWith q (''camera'' @ ''=''))
              (queryParameters_spec ''/events?camera=c2'') = []"
    by (simp add: queryParameters_spec_def)
  have n: "CHR ''?'' \<notin> set ''/events''" by simp
  have c3: "count_list ''/events?'' CHR ''?'' \<le> 1" by simp
  have e: "queryParameters_spec ''/events?'' = [[]]" by (simp add: queryParameters_spec_def)
  note w4 = removeURLParameter_single_question_mark
              [of "''/events?''" "''camera''", THEN conjunct1, rule_format, OF c3]
  have r4: "removeURLParameter ''/events?'' ''camera'' = ''/events?''"
    using w4 [THEN conjunct2, THEN conjunct2, THEN conjunct2, rule_format, OF e] .
  note w1 = removeURLParameter_single_question_mark
              [of "''/events?date=1&camera=c2&tab=x''" "''camera''", THEN conjunct1, rule_format, OF c1]
  note w2 = removeURLParameter_single_question_mark
              [of "''/events?camera=c2''" "''camera''", THEN conjunct1, rule_format, OF c2]
  note w3 = removeURLParameter_single_question_mark
              [of "''/events''" "''camera''", THEN conjunct2, THEN conjunct1, rule_format, OF n]
  have r1: "queryParameters_spec (removeURLParameter ''/events?date=1&camera=c2&tab=x'' ''camera'')
       = [''date=1'', ''tab=x'']"
    using w1 [THEN conjunct2, THEN conjunct1] unfolding f1 .
  have r2: "CHR ''?'' \<notin> set (removeURLParameter ''/events?camera=c2'' ''camera'')"
    using w2 [THEN conjunct2, THEN conjunct2, THEN conjunct1, rule_format, OF f2] .
  from c1 r1 f2 r2 n w3 e r4 show ?thesis by (intro conjI)
qed

text \<open>
  C10. The result of \<open>removeURLParameter\<close> is to keep every query parameter other than
  the removed one, in the original order. The code does not do so on a URL with a second
  \<open>"?"\<close>: the destructuring keeps two pieces of \<open>url.split("?")\<close> and drops the rest, so
  the URL is cut at its second \<open>"?"\<close>. A parameter whose value contains a \<open>"?"\<close> is cut
  short, and under the hash router, where the address can carry a \<open>"?"\<close> before and after
  the \<open>"#"\<close>, the parameter \<open>date=2\<close> is lost when \<open>camera\<close> is removed.
\<close>

theorem removeURLParameter_second_question_mark:
  "removeURLParameter ''/events?back=/live?cam=1&camera=c2'' ''camera'' = ''/events?back=/live''
   \<and> queryParameters_spec ''/events?back=/live?cam=1&camera=c2''
       = [''back=/live?cam=1'', ''camera=c2'']
   \<and> queryParameters_spec (removeURLParameter ''/events?back=/live?cam=1&camera=c2'' ''camera'')
       \<noteq> filter (\<lambda>q. \<not> startsWith q (''camera'' @ ''=''))
           (queryParameters_spec ''/events?back=/live?cam=1&camera=c2'')
   \<and> removeURLParameter ''http://h/?a=1#/events?camera=c1&date=2'' ''camera''
       = ''http://h/?a=1#/events''
   \<and> ''date=2'' \<in> set (queryParameters_spec ''http://h/?a=1#/events?camera=c1&date=2'')
   \<and> ''date=2'' \<notin> set (queryParameters_spec
         (removeURLParameter ''http://h/?a=1#/events?camera=c1&date=2'' ''camera''))"
proof -
  have r: "removeURLParameter ''/events?back=/live?cam=1&camera=c2'' ''camera''
             = ''/events?back=/live''"
    by (simp add: removeURLParameter_def)
  have q: "queryParameters_spec ''/events?back=/live?cam=1&camera=c2''
             = [''back=/live?cam=1'', ''camera=c2'']"
    by (simp add: queryParameters_spec_def)
  have q': "queryParameters_spec ''/events?back=/live'' = [''back=/live'']"
    by (simp add: queryParameters_spec_def)
  have h: "removeURLParameter ''http://h/?a=1#/events?camera=c1&date=2'' ''camera''
             = ''http://h/?a=1#/events''"
    by (simp add: removeURLParameter_def)
  have hq: "queryParameters_spec ''http://h/?a=1#/events?camera=c1&date=2''
             = [''a=1#/events?camera=c1'', ''date=2'']"
    by (simp add: queryParameters_spec_def)
  have hq': "queryParameters_spec ''http://h/?a=1#/events'' = [''a=1#/events'']"
    by (simp add: queryParameters_spec_def)
  show ?thesis unfolding r q q' h hq hq' by simp
qed

section \<open>The camera-selection store: results\<close>

lemma set_ownEntries: "set (ownEntries obj) = set obj"
  by (auto simp: ownEntries_def)

lemma distinct_ownEntries: "distinct obj \<Longrightarrow> distinct (ownEntries obj)"
  by (auto simp: ownEntries_def)

lemma distinct_keys_ownEntries:
  assumes "distinct (map fst obj)"
  shows "distinct (map fst (ownEntries obj))"
proof -
  from assms have "distinct obj" and "inj_on fst (set obj)"
    by (simp_all add: distinct_map)
  then show ?thesis
    by (simp add: distinct_map distinct_ownEntries set_ownEntries)
qed

lemma map_of_ownEntries:
  assumes "distinct (map fst obj)"
  shows "map_of (ownEntries obj) = map_of obj"
  using assms distinct_keys_ownEntries [OF assms] set_ownEntries [of obj]
  by (simp add: map_of_inject_set)

lemma map_of_assign: "map_of (assign obj key v) = (map_of obj)(key \<mapsto> v)"
  by (induction obj key v rule: assign.induct) auto

lemma keys_assign: "fst ` set (assign obj key v) = insert key (fst ` set obj)"
  by (induction obj key v rule: assign.induct) auto

lemma distinct_keys_assign:
  "distinct (map fst obj) \<Longrightarrow> distinct (map fst (assign obj key v))"
proof (induction obj key v rule: assign.induct)
  case (1 key v)
  then show ?case by simp
next
  case (2 k w obj key v)
  then show ?case using keys_assign [of obj key v] by auto
qed

lemma set_trueKeys: "set (trueKeys obj) = {key. map_of obj key = Some True}"
  by (auto simp: trueKeys_def dest: map_of_SomeD intro: rev_image_eqI)

lemma set_selected:
  assumes "distinct (map fst obj)"
  shows "set (map fst (filter (\<lambda>(key, v). v) (ownEntries obj))) = {key. map_of obj key = Some True}"
  using assms by (auto simp: set_ownEntries intro: rev_image_eqI)

lemma getTruthy_ownEntries:
  "distinct (map fst obj) \<Longrightarrow> getTruthy (ownEntries obj) key = getTruthy obj key"
  by (simp add: getTruthy_def map_of_ownEntries)

lemma hasOwn_ownEntries:
  "distinct (map fst obj) \<Longrightarrow> hasOwn (ownEntries obj) key = hasOwn obj key"
  by (simp add: hasOwn_def map_of_ownEntries)

lemma proto_is_inherited: "''__proto__'' \<in> set objectPrototypeKeys"
  by (simp add: objectPrototypeKeys_def)

lemma toggleCamera_cameras:
  assumes "distinct (map fst (cameras s))"
    and "hasOwn (cameras s) cid \<or> cid \<noteq> ''__proto__''"
  shows "map_of (cameras (toggleCamera cid s))
           = (map_of (cameras s))(cid \<mapsto> \<not> getTruthy (cameras s) cid)"
    and "distinct (map fst (cameras (toggleCamera cid s)))"
  using assms
  by (auto simp: toggleCamera_def Let_def spread_def setProperty_def map_of_assign
        map_of_ownEntries getTruthy_ownEntries hasOwn_ownEntries
        distinct_keys_assign distinct_keys_ownEntries)

lemma toggleCamera_getTruthy:
  assumes "distinct (map fst (cameras s))"
    and "hasOwn (cameras s) cid \<or> cid \<noteq> ''__proto__''"
  shows "getTruthy (cameras (toggleCamera cid s)) cid = (\<not> getTruthy (cameras s) cid)"
    and "hasOwn (cameras (toggleCamera cid s)) cid"
  using toggleCamera_cameras(1) [OF assms] by (simp_all add: getTruthy_def hasOwn_def)

lemma toggleCamera_selectedCameras:
  assumes "distinct (map fst (cameras s))"
    and "hasOwn (cameras s) cid \<or> cid \<noteq> ''__proto__''"
  shows "set (selectedCameras (toggleCamera cid s))
           = set (trueKeys (cameras (toggleCamera cid s)))"
proof -
  have "selectedCameras (toggleCamera cid s)
          = map fst (filter (\<lambda>(key, v). v) (ownEntries (cameras (toggleCamera cid s))))"
    by (simp add: toggleCamera_def Let_def)
  with toggleCamera_cameras(2) [OF assms] show ?thesis
    by (simp only: set_selected set_trueKeys)
qed

lemma toggleCamera_selectionOrder:
  assumes "distinct (map fst (cameras s))"
    and "hasOwn (cameras s) cid \<or> cid \<noteq> ''__proto__''"
  shows "selectionOrder (toggleCamera cid s)
           = (if getTruthy (cameras s) cid
              then filter (\<lambda>k. k \<noteq> cid) (selectionOrder s)
              else selectionOrder s @ [cid])"
proof -
  have "selectionOrder (toggleCamera cid s)
          = (if getTruthy (cameras (toggleCamera cid s)) cid
             then selectionOrder s @ [cid]
             else filter (\<lambda>k. k \<noteq> cid) (selectionOrder s))"
    by (simp add: toggleCamera_def Let_def)
  with toggleCamera_getTruthy(1) [OF assms] show ?thesis by simp
qed

lemma toggleCamera_preserves_invariant:
  assumes "distinct (map fst (cameras s))"
    and "hasOwn (cameras s) cid \<or> cid \<noteq> ''__proto__''"
    and "selectionInvariant s"
  shows "selectionInvariant (toggleCamera cid s)"
proof -
  let ?t = "toggleCamera cid s"
  have keys: "set (trueKeys (cameras ?t))
      = (if getTruthy (cameras s) cid then set (trueKeys (cameras s)) - {cid}
         else insert cid (set (trueKeys (cameras s))))"
    using toggleCamera_cameras(1) [OF assms(1,2)] by (auto simp: set_trueKeys)
  have notin: "\<not> getTruthy (cameras s) cid \<Longrightarrow> cid \<notin> set (trueKeys (cameras s))"
    by (auto simp: set_trueKeys getTruthy_def)
  from assms(3) have ord: "set (selectionOrder s) = set (trueKeys (cameras s))"
      "distinct (selectionOrder s)"
    by (simp_all add: selectionInvariant_def)
  have "set (selectionOrder ?t) = set (trueKeys (cameras ?t))"
    using keys ord(1) by (auto simp: toggleCamera_selectionOrder [OF assms(1,2)])
  moreover have "distinct (selectionOrder ?t)"
    using ord notin by (auto simp: toggleCamera_selectionOrder [OF assms(1,2)])
  ultimately show ?thesis
    using toggleCamera_selectedCameras [OF assms(1,2)] by (simp add: selectionInvariant_def)
qed

lemma inherited_getTruthy:
  assumes "hasOwn obj cid \<or> cid \<notin> set objectPrototypeKeys"
  shows "getTruthy obj cid \<longleftrightarrow> map_of obj cid = Some True"
  using assms by (auto simp: getTruthy_def hasOwn_def split: option.splits)

text \<open>
  C9 (as amended). For every store state whose \<open>cameras\<close> object is well formed (each
  key once) and every camera identifier that is an own key of \<open>cameras\<close> or is not the name
  of a property inherited from \<open>Object.prototype\<close>: after \<open>toggleCamera\<close> is applied twice,
  the \<open>cameras\<close> map is the original one except that the identifier now has an entry
  holding its original truth value (an identifier without an entry gets the entry
  \<open>false\<close>; with an entry the map is equal to the original); \<open>selectedCameras\<close> is, as a
  set, the set of keys whose entry was \<open>true\<close>; \<open>selectionOrder\<close> is the original order
  without the identifier, followed by the identifier when it was selected. When the
  original state satisfies the selection invariant, \<open>selectedCameras\<close> and
  \<open>selectionOrder\<close> are therefore equal as sets to the original ones, and in
  \<open>selectionOrder\<close> at most the position of the identifier has changed.
\<close>

theorem double_toggleCamera:
  assumes "distinct (map fst (cameras s))"
    and "hasOwn (cameras s) cid \<or> cid \<notin> set objectPrototypeKeys"
  shows "map_of (cameras (toggleCamera cid (toggleCamera cid s)))
           = (map_of (cameras s))(cid \<mapsto> getTruthy (cameras s) cid)
         \<and> (hasOwn (cameras s) cid \<longrightarrow>
              map_of (cameras (toggleCamera cid (toggleCamera cid s))) = map_of (cameras s))
         \<and> set (selectedCameras (toggleCamera cid (toggleCamera cid s)))
             = set (trueKeys (cameras s))
         \<and> selectionOrder (toggleCamera cid (toggleCamera cid s))
             = filter (\<lambda>k. k \<noteq> cid) (selectionOrder s)
               @ (if getTruthy (cameras s) cid then [cid] else [])
         \<and> (selectionInvariant s \<longrightarrow>
              set (selectedCameras (toggleCamera cid (toggleCamera cid s)))
                = set (selectedCameras s)
              \<and> set (selectionOrder (toggleCamera cid (toggleCamera cid s)))
                = set (selectionOrder s)
              \<and> distinct (selectionOrder (toggleCamera cid (toggleCamera cid s)))
              \<and> filter (\<lambda>k. k \<noteq> cid) (selectionOrder (toggleCamera cid (toggleCamera cid s)))
                = filter (\<lambda>k. k \<noteq> cid) (selectionOrder s)
              \<and> (cid \<notin> set (selectionOrder s) \<longrightarrow>
                   selectionOrder (toggleCamera cid (toggleCamera cid s)) = selectionOrder s))"
proof -
  let ?t = "toggleCamera cid s"
  let ?u = "toggleCamera cid ?t"
  from assms(2) have own: "hasOwn (cameras s) cid \<or> cid \<noteq> ''__proto__''"
    using proto_is_inherited by auto
  note t = toggleCamera_cameras [OF assms(1) own] toggleCamera_getTruthy [OF assms(1) own]
  have own': "hasOwn (cameras ?t) cid \<or> cid \<noteq> ''__proto__''"
    using t(4) by simp
  have m: "map_of (cameras ?u) = (map_of (cameras s))(cid \<mapsto> getTruthy (cameras s) cid)"
    using toggleCamera_cameras(1) [OF t(2) own'] t(1) t(3) by simp
  have g: "getTruthy (cameras s) cid \<longleftrightarrow> map_of (cameras s) cid = Some True"
    by (rule inherited_getTruthy [OF assms(2)])
  have m_own: "map_of (cameras ?u) = map_of (cameras s)" if "hasOwn (cameras s) cid"
  proof -
    from that obtain v where "map_of (cameras s) cid = Some v"
      by (auto simp: hasOwn_def)
    moreover from this have "getTruthy (cameras s) cid = v"
      by (simp add: getTruthy_def)
    ultimately show ?thesis using m by (simp add: fun_upd_idem)
  qed
  have sel: "set (selectedCameras ?u) = set (trueKeys (cameras s))"
    using toggleCamera_selectedCameras [OF t(2) own'] m g by (auto simp: set_trueKeys)
  have ord: "selectionOrder ?u
      = filter (\<lambda>k. k \<noteq> cid) (selectionOrder s)
        @ (if getTruthy (cameras s) cid then [cid] else [])"
    using toggleCamera_selectionOrder [OF t(2) own'] toggleCamera_selectionOrder [OF assms(1) own]
      t(3) by simp
  have inv: "set (selectedCameras ?u) = set (selectedCameras s)
      \<and> set (selectionOrder ?u) = set (selectionOrder s)
      \<and> distinct (selectionOrder ?u)
      \<and> filter (\<lambda>k. k \<noteq> cid) (selectionOrder ?u) = filter (\<lambda>k. k \<noteq> cid) (selectionOrder s)
      \<and> (cid \<notin> set (selectionOrder s) \<longrightarrow> selectionOrder ?u = selectionOrder s)"
    if i: "selectionInvariant s"
  proof -
    from i have s: "set (selectedCameras s) = set (trueKeys (cameras s))"
        "set (selectionOrder s) = set (trueKeys (cameras s))" "distinct (selectionOrder s)"
      by (simp_all add: selectionInvariant_def)
    have in_order: "cid \<in> set (selectionOrder s) \<longleftrightarrow> getTruthy (cameras s) cid"
      using s(2) g by (simp add: set_trueKeys)
    have "set (selectionOrder ?u) = set (selectionOrder s)"
      using in_order by (auto simp: ord)
    moreover have "distinct (selectionOrder ?u)"
      using s(3) by (simp add: ord)
    moreover have "filter (\<lambda>k. k \<noteq> cid) (selectionOrder ?u)
        = filter (\<lambda>k. k \<noteq> cid) (selectionOrder s)"
      by (simp add: ord)
    moreover have "cid \<notin> set (selectionOrder s) \<longrightarrow> selectionOrder ?u = selectionOrder s"
      using in_order by (auto simp: ord filter_id_conv)
    ultimately show ?thesis using sel s(1) by simp
  qed
  from m m_own sel ord inv show ?thesis by blast
qed

theorem double_toggleCamera_witness:
  "distinct (map fst (cameras
       \<lparr>cameras = [(''cam1'', True), (''cam2'', True), (''cam3'', False)],
        selectedCameras = [''cam1'', ''cam2''], selectionOrder = [''cam1'', ''cam2'']\<rparr>))
   \<and> hasOwn [(''cam1'', True), (''cam2'', True), (''cam3'', False)] ''cam1''
   \<and> selectionInvariant
       \<lparr>cameras = [(''cam1'', True), (''cam2'', True), (''cam3'', False)],
        selectedCameras = [''cam1'', ''cam2''], selectionOrder = [''cam1'', ''cam2'']\<rparr>
   \<and> set (selectedCameras (toggleCamera ''cam1'' (toggleCamera ''cam1''
       \<lparr>cameras = [(''cam1'', True), (''cam2'', True), (''cam3'', False)],
        selectedCameras = [''cam1'', ''cam2''], selectionOrder = [''cam1'', ''cam2'']\<rparr>)))
       = {''cam1'', ''cam2''}
   \<and> selectionOrder (toggleCamera ''cam1'' (toggleCamera ''cam1''
       \<lparr>cameras = [(''cam1'', True), (''cam2'', True), (''cam3'', False)],
        selectedCameras = [''cam1'', ''cam2''], selectionOrder = [''cam1'', ''cam2'']\<rparr>))
       = [''cam2'', ''cam1'']"
proof -
  let ?s = "\<lparr>cameras = [(''cam1'', True), (''cam2'', True), (''cam3'', False)],
        selectedCameras = [''cam1'', ''cam2''], selectionOrder = [''cam1'', ''cam2'']\<rparr>"
  have d: "distinct (map fst (cameras ?s))" by simp
  have own: "hasOwn (cameras ?s) ''cam1''" by (simp add: hasOwn_def)
  then have h: "hasOwn (cameras ?s) ''cam1'' \<or> ''cam1'' \<notin> set objectPrototypeKeys" ..
  have i: "selectionInvariant ?s" by (simp add: selectionInvariant_def trueKeys_def) 
  have g: "getTruthy (cameras ?s) ''cam1''" by (simp add: getTruthy_def)
  note w = double_toggleCamera [OF d h]
  from w i have "set (selectedCameras (toggleCamera ''cam1'' (toggleCamera ''cam1'' ?s)))
      = set (selectedCameras ?s)"
    by blast
  then have "set (selectedCameras (toggleCamera ''cam1'' (toggleCamera ''cam1'' ?s)))
      = {''cam1'', ''cam2''}"
    by simp
  moreover from w g have "selectionOrder (toggleCamera ''cam1'' (toggleCamera ''cam1'' ?s))
      = [''cam2'', ''cam1'']"
    by simp
  ultimately show ?thesis using d own i by simp
qed

text \<open>
  C9 as stated fails in three ways. A camera that has no entry gets the entry
  \<open>false\<close>, so the map is not the original one. In a state where \<open>selectedCameras\<close> is
  not the set of keys with a true entry (here the state that \<open>selectSingleCamera\<close> leaves
  on a fresh store), toggling another camera twice recomputes \<open>selectedCameras\<close> from the
  map and loses the selected camera. And for an identifier that names an inherited
  property, the first toggle reads the inherited truthy value and stores \<open>false\<close>, so the
  second toggle selects the camera.
\<close>

theorem double_toggleCamera_changes:
  "map_of (cameras initialState) ''cam1'' = None
   \<and> map_of (cameras (toggleCamera ''cam1'' (toggleCamera ''cam1'' initialState))) ''cam1''
       = Some False
   \<and> selectedCameras (selectSingleCamera ''cam1'' initialState) = [''cam1'']
   \<and> selectedCameras (toggleCamera ''cam2'' (toggleCamera ''cam2''
        (selectSingleCamera ''cam1'' initialState))) = []
   \<and> selectedCameras initialState = []
   \<and> selectedCameras (toggleCamera ''constructor'' (toggleCamera ''constructor'' initialState))
       = [''constructor'']"
  by code_simp

lemma selectSingleCamera_known:
  assumes "distinct (map fst (cameras s))" and "hasOwn (cameras s) cid"
  shows "selectionInvariant (selectSingleCamera cid s)"
proof -
  let ?e = "ownEntries (cameras s)"
  let ?c = "map (\<lambda>(key, v). (key, key = cid)) ?e"
  have keys: "map fst ?c = map fst ?e"
    by (simp add: case_prod_beta comp_def)
  have d: "distinct (map fst ?c)"
    unfolding keys using assms(1) by (rule distinct_keys_ownEntries)
  from assms(2) have "cid \<in> fst ` set (cameras s)"
    by (simp add: hasOwn_def map_of_eq_None_iff)
  then have "cid \<in> fst ` set ?e"
    by (simp only: set_ownEntries)
  then have "(cid, True) \<in> set ?c"
    by (force simp: image_iff)
  then have one: "map_of ?c cid = Some True"
    using d by (simp only: map_of_eq_Some_iff)
  have other: "k = cid" if "map_of ?c k = Some True" for k
  proof -
    from that have "(k, True) \<in> set ?c" by (rule map_of_SomeD)
    then show ?thesis by (auto simp: image_iff)
  qed
  have "set (trueKeys ?c) = {cid}"
    unfolding set_trueKeys using one other by blast
  moreover have "cameras (selectSingleCamera cid s) = ?c"
      "selectedCameras (selectSingleCamera cid s) = [cid]"
      "selectionOrder (selectSingleCamera cid s) = [cid]"
    by (simp_all add: selectSingleCamera_def spread_def Let_def)
  ultimately show ?thesis
    by (simp add: selectionInvariant_def)
qed

text \<open>
  C1. The invariant (\<open>selectedCameras\<close> is the set of keys whose entry is true, and
  \<open>selectionOrder\<close> holds the same identifiers, each once) holds in the initial state and
  is kept by \<open>toggleCamera\<close>, and by \<open>selectSingleCamera\<close> on a camera that has an entry
  (the two lemmas above). It does not hold after every sequence: \<open>selectSingleCamera\<close> on
  a camera without an entry, as on a fresh store, selects the camera and leaves the map
  without a true entry for it; a following \<open>toggleCamera\<close> of that camera then keeps it
  selected and lists it twice in \<open>selectionOrder\<close>.
\<close>

theorem selectSingleCamera_unknown_camera:
  "selectionInvariant initialState
   \<and> run_ops [SelectSingleCamera ''cam1''] initialState
       = \<lparr>cameras = [], selectedCameras = [''cam1''], selectionOrder = [''cam1'']\<rparr>
   \<and> set (selectedCameras (run_ops [SelectSingleCamera ''cam1''] initialState))
       \<noteq> set (trueKeys (cameras (run_ops [SelectSingleCamera ''cam1''] initialState)))
   \<and> run_ops [SelectSingleCamera ''cam1'', ToggleCamera ''cam1''] initialState
       = \<lparr>cameras = [(''cam1'', True)], selectedCameras = [''cam1''],
          selectionOrder = [''cam1'', ''cam1'']\<rparr>
   \<and> \<not> distinct (selectionOrder
         (run_ops [SelectSingleCamera ''cam1'', ToggleCamera ''cam1''] initialState))"
  by code_simp

end
